theory Spec2Isabelle
  imports Complex_Main
begin

section \<open>Tensors\<close>

text \<open>
  The module \<open>condrop/concrete_dropout.py\<close> is written against the tensor library. A tensor
  is modelled by its element type tag, its shape and its elements in row-major order.
  Elements are real numbers: arithmetic is exact, so rounding, infinities and NaN are
  outside the model. Only floating element types occur (\<open>torch.finfo\<close> accepts no other).
\<close>

datatype dtype = Float16 | BFloat16 | Float32 | Float64

datatype error = IndexError | OtherError

record tensor =
  dtype :: dtype
  shape :: "nat list"
  elems :: "real list"

text \<open>A Python variable that holds either a plain number or a tensor.\<close>

datatype pyval = PyNum real | PyTensor tensor

definition numel :: "tensor \<Rightarrow> nat" where
  "numel t = prod_list (shape t)"


text \<open>\<open>torch.finfo(dt).eps\<close>: the gap between 1 and the next representable number.\<close>

fun finfo_eps :: "dtype \<Rightarrow> real" where
  "finfo_eps Float16 = 1 / 2 ^ 10"
| "finfo_eps BFloat16 = 1 / 2 ^ 7"
| "finfo_eps Float32 = 1 / 2 ^ 23"
| "finfo_eps Float64 = 1 / 2 ^ 52"

text \<open>\<open>torch.promote_types\<close> on the floating types.\<close>

fun promote_types :: "dtype \<Rightarrow> dtype \<Rightarrow> dtype" where
  "promote_types Float64 _ = Float64"
| "promote_types _ Float64 = Float64"
| "promote_types Float32 _ = Float32"
| "promote_types _ Float32 = Float32"
| "promote_types Float16 Float16 = Float16"
| "promote_types BFloat16 BFloat16 = BFloat16"
| "promote_types Float16 BFloat16 = Float32"
| "promote_types BFloat16 Float16 = Float32"

text \<open>
  The element type of a binary operation on two floating tensors: a zero-dimensional
  operand does not take part when the other operand has dimensions.
\<close>

definition result_type :: "tensor \<Rightarrow> tensor \<Rightarrow> dtype" where
  "result_type a b =
     (if shape a = [] \<and> shape b \<noteq> [] then dtype b
      else if shape b = [] \<and> shape a \<noteq> [] then dtype a
      else promote_types (dtype a) (dtype b))"

text \<open>Broadcasting of shapes, aligned at the last dimension; a dimension 1 gives way.\<close>

fun bdims :: "nat list \<Rightarrow> nat list \<Rightarrow> nat list" where
  "bdims [] ys = ys"
| "bdims xs [] = xs"
| "bdims (x # xs) (y # ys) = (if x = 1 then y else x) # bdims xs ys"

definition bshape :: "nat list \<Rightarrow> nat list \<Rightarrow> nat list" where
  "bshape s1 s2 = rev (bdims (rev s1) (rev s2))"

text \<open>
  The elements of an operand seen at the broadcast shape. Every broadcast in this module
  has an operand of the result's shape and possibly one with a single element (the
  keep probability, of shape \<open>[1]\<close>, or a zero-dimensional sum), which is repeated.
\<close>

definition expand :: "nat list \<Rightarrow> tensor \<Rightarrow> real list" where
  "expand s t = (if shape t = s then elems t else replicate (prod_list s) (hd (elems t)))"

definition binop :: "(real \<Rightarrow> real \<Rightarrow> real) \<Rightarrow> tensor \<Rightarrow> tensor \<Rightarrow> tensor" where
  "binop f a b =
     (let s = bshape (shape a) (shape b)
      in \<lparr>dtype = result_type a b, shape = s, elems = map2 f (expand s a) (expand s b)\<rparr>)"

text \<open>An in-place operation keeps the target's element type and shape.\<close>

definition inplace :: "(real \<Rightarrow> real \<Rightarrow> real) \<Rightarrow> tensor \<Rightarrow> tensor \<Rightarrow> tensor" where
  "inplace f a b = a\<lparr>elems := map2 f (elems a) (expand (shape a) b)\<rparr>"

definition unary :: "(real \<Rightarrow> real) \<Rightarrow> tensor \<Rightarrow> tensor" where
  "unary f t = t\<lparr>elems := map f (elems t)\<rparr>"

definition sigmoid :: "real \<Rightarrow> real" where
  "sigmoid v = 1 / (1 + exp (- v))"

definition torch_sigmoid :: "tensor \<Rightarrow> tensor" where
  "torch_sigmoid t = unary sigmoid t"

definition torch_log :: "tensor \<Rightarrow> tensor" where
  "torch_log t = unary ln t"

definition torch_pow :: "tensor \<Rightarrow> nat \<Rightarrow> tensor" where
  "torch_pow t n = unary (\<lambda>v. v ^ n) t"

definition torch_sum :: "tensor \<Rightarrow> tensor" where
  "torch_sum t = \<lparr>dtype = dtype t, shape = [], elems = [sum_list (elems t)]\<rparr>"

definition torch_mul :: "tensor \<Rightarrow> tensor \<Rightarrow> tensor" where
  "torch_mul a b = binop (*) a b"

definition t_add :: "tensor \<Rightarrow> tensor \<Rightarrow> tensor" where
  "t_add a b = binop (+) a b"

definition t_sub :: "tensor \<Rightarrow> tensor \<Rightarrow> tensor" where
  "t_sub a b = binop (-) a b"

definition t_div :: "tensor \<Rightarrow> tensor \<Rightarrow> tensor" where
  "t_div a b = binop (/) a b"

text \<open>A tensor and a Python number: the tensor's element type and shape stay.\<close>

definition t_add_s :: "tensor \<Rightarrow> real \<Rightarrow> tensor" where
  "t_add_s t c = unary (\<lambda>v. v + c) t"

definition s_add_t :: "real \<Rightarrow> tensor \<Rightarrow> tensor" where
  "s_add_t c t = unary (\<lambda>v. c + v) t"

definition s_sub_t :: "real \<Rightarrow> tensor \<Rightarrow> tensor" where
  "s_sub_t c t = unary (\<lambda>v. c - v) t"

definition s_mul_t :: "real \<Rightarrow> tensor \<Rightarrow> tensor" where
  "s_mul_t c t = unary (\<lambda>v. c * v) t"

definition t_div_s :: "tensor \<Rightarrow> real \<Rightarrow> tensor" where
  "t_div_s t c = unary (\<lambda>v. v / c) t"

definition s_div_t :: "real \<Rightarrow> tensor \<Rightarrow> tensor" where
  "s_div_t c t = unary (\<lambda>v. c / v) t"

definition t_iadd :: "tensor \<Rightarrow> tensor \<Rightarrow> tensor" where
  "t_iadd a b = inplace (+) a b"

definition t_imul_s :: "tensor \<Rightarrow> real \<Rightarrow> tensor" where
  "t_imul_s t c = unary (\<lambda>v. v * c) t"

text \<open>\<open>x[0]\<close>: the first slice along the leading dimension.\<close>

definition index0 :: "tensor \<Rightarrow> error + tensor" where
  "index0 t =
     (case shape t of
        [] \<Rightarrow> Inl IndexError
      | n # rest \<Rightarrow>
          if n = 0 then Inl IndexError
          else Inr \<lparr>dtype = dtype t, shape = rest, elems = take (prod_list rest) (elems t)\<rparr>)"

text \<open>
  The random generator is the sequence of uniform draws it will produce.
  \<open>torch.rand_like(x)\<close> takes one draw for each element of \<open>x\<close>.
\<close>

type_synonym rng = "nat \<Rightarrow> real"

definition rand_like :: "rng \<Rightarrow> tensor \<Rightarrow> tensor \<times> rng" where
  "rand_like g x =
     (\<lparr>dtype = dtype x, shape = shape x, elems = map g [0..<numel x]\<rparr>, \<lambda>i. g (i + numel x))"

section \<open>The wrapped layer\<close>

text \<open>
  A layer is called on a tensor, which may raise, and lists its parameters
  (\<open>layer.parameters()\<close>).
\<close>

record layer =
  call :: "tensor \<Rightarrow> error + tensor"
  parameters :: "tensor list"

section \<open>The Concrete Dropout module\<close>

record ConcreteDropout =
  weight_regulariser :: real
  dropout_regulariser :: real
  p_logit :: tensor
  p :: tensor
  temperature :: real
  mc_dropout :: bool
  regularisation :: pyval
  training :: bool

text \<open>
  \<open>__init__\<close>. \<open>torch.empty(1).uniform_(lo, hi)\<close> is one draw scaled into the interval;
  the library raises when the bounds are in the wrong order. A new module is in training
  mode.
\<close>

definition init ::
  "real \<Rightarrow> real \<Rightarrow> real \<Rightarrow> real \<Rightarrow> real \<Rightarrow> bool \<Rightarrow> rng
     \<Rightarrow> error + ConcreteDropout \<times> rng" where
  "init weight_reg dropout_reg init_min init_max temperate mc g =
     (let lo = ln init_min - ln (1 - init_min);
          hi = ln init_max - ln (1 - init_max)
      in if hi < lo then Inl OtherError
         else
           (let pl = \<lparr>dtype = Float32, shape = [1], elems = [lo + (hi - lo) * g 0]\<rparr>
            in Inr (\<lparr>weight_regulariser = weight_reg,
                      dropout_regulariser = dropout_reg,
                      p_logit = pl,
                      p = torch_sigmoid pl,
                      temperature = temperate,
                      mc_dropout = mc,
                      regularisation = PyNum 0,
                      training = True\<rparr>,
                    \<lambda>i. g (i + 1))))"

text \<open>\<open>_concrete_dropout\<close>: returns the module with its cached \<open>p\<close> refreshed, the
  generator after the draw, and the masked input.\<close>

definition concrete_dropout ::
  "ConcreteDropout \<Rightarrow> tensor \<Rightarrow> rng \<Rightarrow> ConcreteDropout \<times> rng \<times> tensor" where
  "concrete_dropout self x g =
     (let eps = finfo_eps (dtype x);
          tmp = 1 / 10;
          self1 = self\<lparr>p := torch_sigmoid (p_logit self)\<rparr>;
          (u_noise, g1) = rand_like g x;
          drop_prob =
            t_sub
              (t_add
                (t_sub (torch_log (t_add_s (p self1) eps))
                       (torch_log (t_add_s (s_sub_t 1 (p self1)) eps)))
                (torch_log (t_add_s u_noise eps)))
              (torch_log (t_add_s (s_sub_t 1 u_noise) eps));
          drop_prob1 = torch_sigmoid (t_div_s drop_prob tmp);
          random_dropout_mask = s_sub_t 1 drop_prob1;
          retain_prob = s_sub_t 1 (p self1)
      in (self1, g1, t_div (torch_mul x random_dropout_mask) retain_prob))"

text \<open>
  The accumulation \<open>sum_of_squares += torch.sum(torch.pow(param, 2))\<close>: the variable starts
  as the Python number 0, so the first step builds a tensor and the later ones add in
  place.
\<close>

fun py_iadd :: "pyval \<Rightarrow> tensor \<Rightarrow> pyval" where
  "py_iadd (PyNum n) t = PyTensor (s_add_t n t)"
| "py_iadd (PyTensor a) t = PyTensor (t_iadd a t)"

definition sum_of_squares :: "layer \<Rightarrow> pyval" where
  "sum_of_squares l =
     foldl (\<lambda>s param. py_iadd s (torch_sum (torch_pow param 2))) (PyNum 0) (parameters l)"

text \<open>\<open>self.weight_regulariser * sum_of_squares / (1.0 - self.p)\<close>.\<close>

fun weights_reg :: "real \<Rightarrow> pyval \<Rightarrow> tensor \<Rightarrow> tensor" where
  "weights_reg wr (PyNum n) pt = s_div_t (wr * n) (s_sub_t 1 pt)"
| "weights_reg wr (PyTensor s) pt = t_div (s_mul_t wr s) (s_sub_t 1 pt)"

text \<open>The two statements that build the entropy term from \<open>self.p\<close>.\<close>

definition entropy_term :: "tensor \<Rightarrow> tensor" where
  "entropy_term pt =
     t_iadd (torch_mul pt (torch_log pt))
            (torch_mul (s_sub_t 1 pt) (torch_log (s_sub_t 1 pt)))"

text \<open>\<open>dropout_reg *= self.dropout_regulariser * x[0].numel()\<close>, given the slice.\<close>

definition dropout_reg :: "real \<Rightarrow> tensor \<Rightarrow> tensor \<Rightarrow> tensor" where
  "dropout_reg dr x0 pt = t_imul_s (entropy_term pt) (dr * real (numel x0))"

text \<open>\<open>forward\<close>. An exception leaves the module as it is at that point.\<close>

definition forward ::
  "ConcreteDropout \<Rightarrow> tensor \<Rightarrow> layer \<Rightarrow> rng \<Rightarrow> ConcreteDropout \<times> rng \<times> (error + tensor)" where
  "forward self x l g =
     (let (self1, g1, inp) =
            (if training self \<or> mc_dropout self then concrete_dropout self x g
             else (self, g, x))
      in case call l inp of
           Inl e \<Rightarrow> (self1, g1, Inl e)
         | Inr output \<Rightarrow>
             (let w = weights_reg (weight_regulariser self1) (sum_of_squares l) (p self1)
              in case index0 x of
                   Inl e \<Rightarrow> (self1, g1, Inl e)
                 | Inr x0 \<Rightarrow>
                     (self1\<lparr>regularisation :=
                         PyTensor (t_add w (dropout_reg (dropout_regulariser self1) x0 (p self1)))\<rparr>,
                      g1, Inr output)))"

section \<open>The module on a store of tensor objects\<close>

text \<open>
  Tensors are objects: \<open>forward\<close> contains the augmented assignments \<open>+=\<close> and \<open>*=\<close>,
  which on a tensor write into the object they are applied to. To state what a call may
  overwrite, the two methods are given a second time with tensors held in a store, a list
  indexed by address. Every library call allocates its result at a new address; an
  augmented assignment on a tensor updates the store at the target's address; fields and
  local variables hold addresses. A read at an address outside the store is not
  specified; the addresses a caller passes are those of existing tensors.
\<close>

type_synonym heap = "tensor list"

definition alloc :: "heap \<Rightarrow> tensor \<Rightarrow> heap \<times> nat" where
  "alloc h t = (h @ [t], length h)"

text \<open>
  The layer's call is code of its own: it receives the store and returns it, possibly
  changed, with the address of its output or an exception.
\<close>

record layer_obj =
  call_o :: "heap \<Rightarrow> nat \<Rightarrow> heap \<times> (error + nat)"
  parameters_o :: "nat list"

record module_obj =
  o_weight_regulariser :: real
  o_dropout_regulariser :: real
  o_p_logit :: nat
  o_p :: nat
  o_temperature :: real
  o_mc_dropout :: bool
  o_regularisation :: "real + nat"
  o_training :: bool

text \<open>
  The statement that builds the score,
  \<open>torch.log(self.p + eps) - torch.log(1 - self.p + eps)
    + torch.log(u_noise + eps) - torch.log(1 - u_noise + eps)\<close>,
  one allocation for each library call, in evaluation order.
\<close>

definition drop_score_o :: "nat \<Rightarrow> nat \<Rightarrow> real \<Rightarrow> heap \<Rightarrow> heap \<times> nat" where
  "drop_score_o pa u_noise eps h0 =
     (let (h, a1) = alloc h0 (t_add_s (h0 ! pa) eps);
          (h, a2) = alloc h (torch_log (h ! a1));
          (h, a3) = alloc h (s_sub_t 1 (h ! pa));
          (h, a4) = alloc h (t_add_s (h ! a3) eps);
          (h, a5) = alloc h (torch_log (h ! a4));
          (h, a6) = alloc h (t_sub (h ! a2) (h ! a5));
          (h, a7) = alloc h (t_add_s (h ! u_noise) eps);
          (h, a8) = alloc h (torch_log (h ! a7));
          (h, a9) = alloc h (t_add (h ! a6) (h ! a8));
          (h, a10) = alloc h (s_sub_t 1 (h ! u_noise));
          (h, a11) = alloc h (t_add_s (h ! a10) eps);
          (h, a12) = alloc h (torch_log (h ! a11))
      in alloc h (t_sub (h ! a9) (h ! a12)))"

text \<open>\<open>_concrete_dropout\<close>.\<close>

definition concrete_dropout_o ::
  "module_obj \<Rightarrow> nat \<Rightarrow> rng \<Rightarrow> heap \<Rightarrow> module_obj \<times> rng \<times> nat \<times> heap" where
  "concrete_dropout_o self x g h0 =
     (let eps = finfo_eps (dtype (h0 ! x));
          tmp = 1 / 10;
          (h, pa) = alloc h0 (torch_sigmoid (h0 ! o_p_logit self));
          self1 = self\<lparr>o_p := pa\<rparr>;
          (noise, g1) = rand_like g (h ! x);
          (h, u_noise) = alloc h noise;
          (h, drop_prob) = drop_score_o (o_p self1) u_noise eps h;
          (h, a13) = alloc h (t_div_s (h ! drop_prob) tmp);
          (h, drop_prob1) = alloc h (torch_sigmoid (h ! a13));
          (h, random_dropout_mask) = alloc h (s_sub_t 1 (h ! drop_prob1));
          (h, retain_prob) = alloc h (s_sub_t 1 (h ! o_p self1));
          (h, a14) = alloc h (torch_mul (h ! x) (h ! random_dropout_mask));
          (h, x1) = alloc h (t_div (h ! a14) (h ! retain_prob))
      in (self1, g1, x1, h))"

text \<open>
  One round of the loop over \<open>layer.parameters()\<close>: on the number 0 the sum
  \<open>0 + tensor\<close> is a new tensor, afterwards \<open>+=\<close> adds in place into that tensor.
\<close>

definition sos_step :: "heap \<times> (real + nat) \<Rightarrow> nat \<Rightarrow> heap \<times> (real + nat)" where
  "sos_step st param =
     (let (h, a1) = alloc (fst st) (torch_pow (fst st ! param) 2);
          (h, a2) = alloc h (torch_sum (h ! a1))
      in case snd st of
           Inl n \<Rightarrow> (let (h, a3) = alloc h (s_add_t n (h ! a2)) in (h, Inr a3))
         | Inr a \<Rightarrow> (h[a := t_iadd (h ! a) (h ! a2)], Inr a))"

definition sum_of_squares_o :: "layer_obj \<Rightarrow> heap \<Rightarrow> heap \<times> (real + nat)" where
  "sum_of_squares_o l h = foldl sos_step (h, Inl 0) (parameters_o l)"

definition weights_reg_o :: "real \<Rightarrow> real + nat \<Rightarrow> nat \<Rightarrow> heap \<Rightarrow> heap \<times> nat" where
  "weights_reg_o wr sos pa h0 =
     (case sos of
        Inl n \<Rightarrow>
          (let (h, r) = alloc h0 (s_sub_t 1 (h0 ! pa))
           in alloc h (s_div_t (wr * n) (h ! r)))
      | Inr s \<Rightarrow>
          (let (h, m) = alloc h0 (s_mul_t wr (h0 ! s));
               (h, r) = alloc h (s_sub_t 1 (h ! pa))
           in alloc h (t_div (h ! m) (h ! r))))"

text \<open>\<open>dropout_reg = self.p * torch.log(self.p)\<close> and the \<open>+=\<close> that follows it.\<close>

definition entropy_term_o :: "nat \<Rightarrow> heap \<Rightarrow> heap \<times> nat" where
  "entropy_term_o pa h0 =
     (let (h, l1) = alloc h0 (torch_log (h0 ! pa));
          (h, d) = alloc h (torch_mul (h ! pa) (h ! l1));
          (h, r1) = alloc h (s_sub_t 1 (h ! pa));
          (h, r2) = alloc h (s_sub_t 1 (h ! pa));
          (h, l2) = alloc h (torch_log (h ! r2));
          (h, m2) = alloc h (torch_mul (h ! r1) (h ! l2))
      in (h[d := t_iadd (h ! d) (h ! m2)], d))"

definition forward_o ::
  "module_obj \<Rightarrow> nat \<Rightarrow> layer_obj \<Rightarrow> rng \<Rightarrow> heap
     \<Rightarrow> module_obj \<times> rng \<times> (error + nat) \<times> heap" where
  "forward_o self x l g h0 =
     (let (self1, g1, inp, h) =
            (if o_training self \<or> o_mc_dropout self then concrete_dropout_o self x g h0
             else (self, g, x, h0));
          (h, res) = call_o l h inp
      in case res of
           Inl e \<Rightarrow> (self1, g1, Inl e, h)
         | Inr output \<Rightarrow>
             (let (h, sos) = sum_of_squares_o l h;
                  (h, w) = weights_reg_o (o_weight_regulariser self1) sos (o_p self1) h;
                  (h, d) = entropy_term_o (o_p self1) h
              in case index0 (h ! x) of
                   Inl e \<Rightarrow> (self1, g1, Inl e, h)
                 | Inr x0 \<Rightarrow>
                     (let h = h[d := t_imul_s (h ! d)
                                  (o_dropout_regulariser self1 * real (numel x0))];
                          (h, reg) = alloc h (t_add (h ! w) (h ! d))
                      in (self1\<lparr>o_regularisation := Inr reg\<rparr>, g1, Inr output, h))))"

text \<open>The store \<open>h'\<close> holds every tensor of \<open>h\<close> unchanged, and possibly new ones.\<close>

definition extends :: "heap \<Rightarrow> heap \<Rightarrow> bool" where
  "extends h h' \<longleftrightarrow> take (length h) h' = h"

text \<open>
  What the store-level objects denote: the value of a variable that holds a number or an
  address, the module as a record of values, and a layer on values whose call the
  store-level layer follows without changing an existing tensor.
\<close>

fun val_of :: "real + nat \<Rightarrow> heap \<Rightarrow> pyval" where
  "val_of (Inl n) h = PyNum n"
| "val_of (Inr a) h = PyTensor (h ! a)"

definition module_of :: "module_obj \<Rightarrow> heap \<Rightarrow> ConcreteDropout" where
  "module_of self h =
     \<lparr>weight_regulariser = o_weight_regulariser self,
      dropout_regulariser = o_dropout_regulariser self,
      p_logit = h ! o_p_logit self,
      p = h ! o_p self,
      temperature = o_temperature self,
      mc_dropout = o_mc_dropout self,
      regularisation = val_of (o_regularisation self) h,
      training = o_training self\<rparr>"

definition layer_refines :: "layer_obj \<Rightarrow> layer \<Rightarrow> bool" where
  "layer_refines l lv \<longleftrightarrow>
     (\<forall>h inp. inp < length h \<longrightarrow>
        (case call_o l h inp of (h', r) \<Rightarrow>
           extends h h' \<and>
           (case r of
              Inl e \<Rightarrow> call lv (h ! inp) = Inl e
            | Inr out \<Rightarrow> out < length h' \<and> call lv (h ! inp) = Inr (h' ! out))))"

section \<open>The formulas of the specification\<close>

text \<open>
  The sum over the layer's parameters of the sum of their squared elements, and the
  regularisation value, written as the specification words them.
\<close>

definition sos_value :: "layer \<Rightarrow> real" where
  "sos_value l = (\<Sum>param\<leftarrow>parameters l. \<Sum>v\<leftarrow>elems param. v ^ 2)"



section \<open>Broadcasting and the regularisation terms\<close>

lemma promote_types_idem [simp]: "promote_types d d = d"
  by (cases d) simp_all


lemma promote_types_absorb [simp]:
  "promote_types (promote_types a b) b = promote_types a b"
  "promote_types (promote_types a b) a = promote_types a b"
  "promote_types a (promote_types a b) = promote_types a b"
  "promote_types b (promote_types a b) = promote_types a b"
  by (cases a; cases b; simp)+

lemma bdims_nil_right [simp]: "bdims xs [] = xs"
  by (cases xs) simp_all

lemma bshape_same [simp]: "bshape s s = s"
proof -
  have "bdims xs xs = xs" for xs by (induction xs) simp_all
  then show ?thesis by (simp add: bshape_def)
qed



lemma bshape_nil [simp]: "bshape [] s = s" "bshape s [] = s"
  by (simp_all add: bshape_def)


lemma expand_scalar:
  "elems t = [v] \<Longrightarrow> shape t = [] \<Longrightarrow> expand s t = replicate (prod_list s) v"
  by (auto simp: expand_def)

lemma expand_self [simp]: "expand (shape t) t = elems t"
  by (simp add: expand_def)




lemma sum_of_squares_acc:
  assumes "shape a = []" "elems a = [s]"
  shows "foldl (\<lambda>s param. py_iadd s (torch_sum (torch_pow param 2))) (PyTensor a) ps =
         PyTensor (a\<lparr>elems := [s + (\<Sum>param\<leftarrow>ps. \<Sum>v\<leftarrow>elems param. v ^ 2)]\<rparr>)"
  using assms
proof (induction ps arbitrary: a s)
  case Nil
  then show ?case by simp
next
  case (Cons q qs)
  let ?a = "t_iadd a (torch_sum (torch_pow q 2))"
  have e: "elems ?a = [s + (\<Sum>v\<leftarrow>elems q. v ^ 2)]" and sh: "shape ?a = []"
    using Cons.prems
    by (simp_all add: t_iadd_def inplace_def torch_sum_def torch_pow_def unary_def expand_def)
  have a: "?a\<lparr>elems := r\<rparr> = a\<lparr>elems := r\<rparr>" for r
    by (simp add: t_iadd_def inplace_def)
  show ?case
    using Cons.IH[OF sh e] by (simp add: a add.assoc)
qed

lemma sum_of_squares_cases:
  "sum_of_squares l =
     (case parameters l of
        [] \<Rightarrow> PyNum 0
      | q # qs \<Rightarrow> PyTensor \<lparr>dtype = dtype q, shape = [], elems = [sos_value l]\<rparr>)"
proof (cases "parameters l")
  case Nil
  then show ?thesis by (simp add: sum_of_squares_def)
next
  case (Cons q qs)
  let ?a = "s_add_t 0 (torch_sum (torch_pow q 2))"
  have e: "elems ?a = [\<Sum>v\<leftarrow>elems q. v ^ 2]" and sh: "shape ?a = []"
    by (simp_all add: s_add_t_def torch_sum_def torch_pow_def unary_def)
  show ?thesis
    using sum_of_squares_acc[OF sh e, of qs] Cons
    by (simp add: sum_of_squares_def sos_value_def s_add_t_def torch_sum_def torch_pow_def unary_def)
qed

lemma weights_reg_value:
  assumes "shape pt = [1]" "elems pt = [pv]"
  shows "weights_reg wr (sum_of_squares l) pt =
         \<lparr>dtype = dtype pt, shape = [1], elems = [wr * sos_value l / (1 - pv)]\<rparr>"
proof (cases "parameters l")
  case Nil
  then show ?thesis using assms
    by (simp add: sum_of_squares_cases sos_value_def s_div_t_def s_sub_t_def unary_def)
next
  case (Cons q qs)
  then show ?thesis using assms
    by (simp add: sum_of_squares_cases t_div_def binop_def s_mul_t_def s_sub_t_def unary_def
        result_type_def expand_def)
qed

lemma entropy_term_value:
  assumes "shape pt = [1]" "elems pt = [pv]"
  shows "entropy_term pt =
         \<lparr>dtype = dtype pt, shape = [1], elems = [pv * ln pv + (1 - pv) * ln (1 - pv)]\<rparr>"
  using assms
  by (simp add: entropy_term_def t_iadd_def inplace_def torch_mul_def binop_def torch_log_def
      s_sub_t_def unary_def result_type_def expand_def)

lemma dropout_reg_value:
  assumes "shape pt = [1]" "elems pt = [pv]"
  shows "dropout_reg dr x0 pt =
         \<lparr>dtype = dtype pt, shape = [1],
          elems = [(pv * ln pv + (1 - pv) * ln (1 - pv)) * (dr * real (numel x0))]\<rparr>"
  using assms by (simp add: dropout_reg_def entropy_term_value t_imul_s_def unary_def)


section \<open>The two branches of \<open>forward\<close>\<close>

lemma concrete_dropout_self:
  "fst (concrete_dropout self x g) = self\<lparr>p := torch_sigmoid (p_logit self)\<rparr>"
  by (simp add: concrete_dropout_def rand_like_def Let_def)

lemma concrete_dropout_rng:
  "fst (snd (concrete_dropout self x g)) = (\<lambda>i. g (i + numel x))"
  by (simp add: concrete_dropout_def rand_like_def Let_def)

lemma forward_inference:
  assumes "\<not> training self" "\<not> mc_dropout self"
  shows "forward self x l g =
     (case call l x of
        Inl e \<Rightarrow> (self, g, Inl e)
      | Inr output \<Rightarrow>
          (case index0 x of
             Inl e \<Rightarrow> (self, g, Inl e)
           | Inr x0 \<Rightarrow>
               (self\<lparr>regularisation :=
                   PyTensor (t_add (weights_reg (weight_regulariser self) (sum_of_squares l) (p self))
                                   (dropout_reg (dropout_regulariser self) x0 (p self)))\<rparr>,
                g, Inr output)))"
  using assms by (simp add: forward_def split: sum.splits)

lemma forward_dropout:
  assumes "training self \<or> mc_dropout self"
  shows "forward self x l g =
     (let self1 = self\<lparr>p := torch_sigmoid (p_logit self)\<rparr>;
          g1 = (\<lambda>i. g (i + numel x))
      in case call l (snd (snd (concrete_dropout self x g))) of
        Inl e \<Rightarrow> (self1, g1, Inl e)
      | Inr output \<Rightarrow>
          (case index0 x of
             Inl e \<Rightarrow> (self1, g1, Inl e)
           | Inr x0 \<Rightarrow>
               (self1\<lparr>regularisation :=
                   PyTensor (t_add (weights_reg (weight_regulariser self) (sum_of_squares l) (p self1))
                                   (dropout_reg (dropout_regulariser self) x0 (p self1)))\<rparr>,
                g1, Inr output)))"
proof -
  obtain s1 g1 y where c: "concrete_dropout self x g = (s1, g1, y)"
    by (cases "concrete_dropout self x g") auto
  have s1: "s1 = self\<lparr>p := torch_sigmoid (p_logit self)\<rparr>"
    using concrete_dropout_self[of self x g] c by simp
  have g1: "g1 = (\<lambda>i. g (i + numel x))"
    using concrete_dropout_rng[of self x g] c by simp
  show ?thesis
    using assms by (simp add: forward_def c s1 g1 Let_def split: sum.splits)
qed


lemma index0_empty_batch: "shape x = 0 # rest \<Longrightarrow> index0 x = Inl IndexError"
  by (simp add: index0_def)

lemma forward_inference_regularisation_irrelevant:
  assumes "\<not> training self" "\<not> mc_dropout self"
  shows "forward (self\<lparr>regularisation := r\<rparr>) x l g' =
     (case forward self x l g of (s, _, out) \<Rightarrow>
        (case out of Inl e \<Rightarrow> (s\<lparr>regularisation := r\<rparr>, g', out) | Inr y \<Rightarrow> (s, g', out)))"
proof -
  have a: "\<not> training (self\<lparr>regularisation := r\<rparr>)" "\<not> mc_dropout (self\<lparr>regularisation := r\<rparr>)"
    using assms by simp_all
  show ?thesis
    by (simp add: forward_inference[OF assms] forward_inference[OF a] split: sum.splits)
qed

section \<open>The value of the dropout transform\<close>








section \<open>The regularisation terms as functions of the keep probability\<close>

lemma weights_reg_item:
  "hd (elems (weights_reg wr (sum_of_squares l) \<lparr>dtype = d, shape = [1], elems = [q]\<rparr>)) =
     wr * sos_value l / (1 - q)"
  by (subst weights_reg_value[where pv = q]) simp_all

lemma dropout_reg_item:
  "hd (elems (dropout_reg dr x0 \<lparr>dtype = d, shape = [1], elems = [q]\<rparr>)) =
     (q * ln q + (1 - q) * ln (1 - q)) * (dr * real (numel x0))"
  by (subst dropout_reg_value[where pv = q]) simp_all

lemma xlnx_bounds:
  fixes q :: real
  assumes "0 < q" "q < 1"
  shows "- (2 * sqrt q) \<le> q * ln q" "q * ln q \<le> 0"
proof -
  have s: "0 < sqrt q" using assms by simp
  have "ln (1 / sqrt q) \<le> 1 / sqrt q - 1"
    using s by (intro ln_le_minus_one) simp
  moreover have "ln (1 / sqrt q) = - (ln q / 2)"
    using assms s by (simp add: ln_div ln_sqrt)
  ultimately have "- (ln q / 2) \<le> 1 / sqrt q" by linarith
  then have "q * (- (ln q / 2)) \<le> q * (1 / sqrt q)"
    using assms by (intro mult_left_mono) simp_all
  moreover have "q * (1 / sqrt q) = sqrt q"
    using assms s by (simp add: real_div_sqrt)
  ultimately show "- (2 * sqrt q) \<le> q * ln q" by linarith
  have "ln q < 0" using assms by simp
  then show "q * ln q \<le> 0"
    using assms by (simp add: mult_le_0_iff)
qed

lemma xlnx_at_right_0: "((\<lambda>q::real. q * ln q) \<longlongrightarrow> 0) (at_right 0)"
proof (rule tendsto_sandwich)
  show "\<forall>\<^sub>F q in at_right 0. - (2 * sqrt q) \<le> q * ln q"
    by (rule eventually_mono[OF eventually_at_right_real[OF zero_less_one]])
      (auto intro!: xlnx_bounds)
  show "\<forall>\<^sub>F q in at_right 0. q * ln q \<le> (0::real)"
    by (rule eventually_mono[OF eventually_at_right_real[OF zero_less_one]])
      (auto intro!: xlnx_bounds)
  have "((\<lambda>q::real. - (2 * sqrt q)) \<longlongrightarrow> - (2 * sqrt 0)) (at_right 0)"
    by (intro tendsto_intros)
  then show "((\<lambda>q::real. - (2 * sqrt q)) \<longlongrightarrow> 0) (at_right 0)" by simp
  show "((\<lambda>q::real. 0) \<longlongrightarrow> (0::real)) (at_right 0)" by simp
qed

lemma xlnx_compl_at_left_1: "((\<lambda>q::real. (1 - q) * ln (1 - q)) \<longlongrightarrow> 0) (at_left 1)"
proof (rule tendsto_sandwich)
  show "\<forall>\<^sub>F q in at_left 1. - (2 * sqrt (1 - q)) \<le> (1 - q) * ln (1 - q)"
    by (rule eventually_mono[OF eventually_at_left_real[OF zero_less_one]])
      (auto intro!: xlnx_bounds)
  show "\<forall>\<^sub>F q in at_left 1. (1 - q) * ln (1 - q) \<le> (0::real)"
    by (rule eventually_mono[OF eventually_at_left_real[OF zero_less_one]])
      (auto intro!: xlnx_bounds)
  have "((\<lambda>q::real. - (2 * sqrt (1 - q))) \<longlongrightarrow> - (2 * sqrt (1 - 1))) (at_left 1)"
    by (intro tendsto_intros)
  then show "((\<lambda>q::real. - (2 * sqrt (1 - q))) \<longlongrightarrow> 0) (at_left 1)" by simp
  show "((\<lambda>q::real. 0) \<longlongrightarrow> (0::real)) (at_left 1)" by simp
qed

lemma entropy_at_right_0:
  "((\<lambda>q::real. q * ln q + (1 - q) * ln (1 - q)) \<longlongrightarrow> 0) (at_right 0)"
proof -
  have "((\<lambda>q::real. (1 - q) * ln (1 - q)) \<longlongrightarrow> (1 - 0) * ln (1 - 0)) (at_right 0)"
    by (intro tendsto_intros) simp_all
  then have "((\<lambda>q::real. (1 - q) * ln (1 - q)) \<longlongrightarrow> 0) (at_right 0)" by simp
  from tendsto_add[OF xlnx_at_right_0 this] show ?thesis by simp
qed

lemma entropy_at_left_1:
  "((\<lambda>q::real. q * ln q + (1 - q) * ln (1 - q)) \<longlongrightarrow> 0) (at_left 1)"
proof -
  have "((\<lambda>q::real. q * ln q) \<longlongrightarrow> 1 * ln 1) (at_left 1)"
    by (intro tendsto_intros) simp_all
  then have "((\<lambda>q::real. q * ln q) \<longlongrightarrow> 0) (at_left 1)" by simp
  from tendsto_add[OF this xlnx_compl_at_left_1] show ?thesis by simp
qed

lemma entropy_min:
  fixes q :: real
  assumes "0 < q" "q < 1"
  shows "- ln 2 \<le> q * ln q + (1 - q) * ln (1 - q)"
proof -
  have a: "q * ln q + q * ln 2 \<ge> q - 1 / 2" if "0 < q" for q :: real
  proof -
    have "ln (1 / (2 * q)) \<le> 1 / (2 * q) - 1"
      using that by (intro ln_le_minus_one) simp
    moreover have "ln (1 / (2 * q)) = - (ln 2 + ln q)"
      using that by (simp add: ln_div ln_mult)
    ultimately have "- (ln 2 + ln q) \<le> 1 / (2 * q) - 1" by simp
    then have "q * (- (ln 2 + ln q)) \<le> q * (1 / (2 * q) - 1)"
      using that by (intro mult_left_mono) simp_all
    moreover have "q * (1 / (2 * q) - 1) = 1 / 2 - q"
      using that by (simp add: field_simps)
    ultimately show ?thesis by (simp add: algebra_simps)
  qed
  from a[of q] a[of "1 - q"] assms show ?thesis
    by (simp add: algebra_simps)
qed

lemma entropy_half: "(1 / 2) * ln (1 / 2) + (1 - 1 / 2) * ln (1 - 1 / 2) = - ln (2::real)"
  by (simp add: ln_div)

section \<open>What the methods write in the store\<close>

lemma extends_iff: "extends h h' \<longleftrightarrow> (\<exists>t. h' = h @ t)"
  unfolding extends_def by (metis append_eq_conv_conj append_take_drop_id)

lemma extends_refl [simp]: "extends h h"
  by (simp add: extends_def)

lemma extends_length: "extends h h' \<Longrightarrow> length h \<le> length h'"
  by (auto simp: extends_iff)

lemma extends_trans: "extends h1 h2 \<Longrightarrow> extends h2 h3 \<Longrightarrow> extends h1 h3"
  by (auto simp: extends_iff)

lemma extends_alloc: "extends h0 h \<Longrightarrow> extends h0 (fst (alloc h t))"
  by (auto simp: extends_iff alloc_def)

lemma extends_update: "extends h0 h \<Longrightarrow> length h0 \<le> a \<Longrightarrow> extends h0 (h[a := t])"
  by (auto simp: extends_iff list_update_append)

lemma extends_nth: "extends h h' \<Longrightarrow> a < length h \<Longrightarrow> a < length h' \<and> h' ! a = h ! a"
  by (auto simp: extends_iff nth_append)

lemma drop_score_o_frame: "drop_score_o pa u eps h = (h', a) \<Longrightarrow> \<exists>t. h' = h @ t"
  by (auto simp: drop_score_o_def alloc_def Let_def)

lemma concrete_dropout_o_frame: "extends h (snd (snd (snd (concrete_dropout_o self x g h))))"
  by (auto simp: concrete_dropout_o_def alloc_def rand_like_def Let_def extends_iff
      split: prod.splits dest!: drop_score_o_frame)

lemma sos_step_frame:
  assumes "extends h0 (fst st)" "\<forall>a. snd st = Inr a \<longrightarrow> length h0 \<le> a"
  shows "extends h0 (fst (sos_step st param))
       \<and> (\<forall>a. snd (sos_step st param) = Inr a \<longrightarrow> length h0 \<le> a)"
proof (cases "snd st")
  case (Inl n)
  then show ?thesis
    using assms(1) extends_length[OF assms(1)]
    by (auto simp: sos_step_def alloc_def Let_def extends_iff)
next
  case (Inr a)
  then have "length h0 \<le> a" using assms(2) by simp
  then show ?thesis
    using Inr assms(1)
    by (auto simp: sos_step_def alloc_def Let_def extends_iff list_update_append)
qed

lemma sos_fold_frame:
  assumes "extends h0 (fst st)" "\<forall>a. snd st = Inr a \<longrightarrow> length h0 \<le> a"
  shows "extends h0 (fst (foldl sos_step st ps))
       \<and> (\<forall>a. snd (foldl sos_step st ps) = Inr a \<longrightarrow> length h0 \<le> a)"
  using assms
proof (induction ps arbitrary: st)
  case Nil
  then show ?case by simp
next
  case (Cons q qs)
  from sos_step_frame[OF Cons.prems, of q]
  have "extends h0 (fst (sos_step st q))"
    and "\<forall>a. snd (sos_step st q) = Inr a \<longrightarrow> length h0 \<le> a"
    by simp_all
  from Cons.IH[OF this] show ?case by simp
qed

lemma sum_of_squares_o_frame: "extends h (fst (sum_of_squares_o l h))"
  using sos_fold_frame[of h "(h, Inl 0)" "parameters_o l"]
  by (simp add: sum_of_squares_o_def)

lemma weights_reg_o_frame: "extends h (fst (weights_reg_o wr sos pa h))"
  by (cases sos) (simp_all add: weights_reg_o_def alloc_def Let_def extends_iff)

lemma entropy_term_o_frame:
  "extends h (fst (entropy_term_o pa h)) \<and> length h \<le> snd (entropy_term_o pa h)"
  by (simp add: entropy_term_o_def alloc_def Let_def extends_iff list_update_append)


lemma forward_o_post_frame:
  assumes "forward_o self x l g h0 = (self', g', res, h')"
  shows "\<exists>hd inp. extends h0 hd \<and> extends (fst (call_o l hd inp)) h'"
proof -
  obtain self1 g1 inp hd where d:
    "(if o_training self \<or> o_mc_dropout self then concrete_dropout_o self x g h0
      else (self, g, x, h0)) = (self1, g1, inp, hd)"
    by (metis prod_cases4)
  have hd: "extends h0 hd"
    using d concrete_dropout_o_frame[of h0 self x g] by (auto split: if_splits)
  obtain hl r where c: "call_o l hd inp = (hl, r)" by (cases "call_o l hd inp")
  obtain hs sos where s: "sum_of_squares_o l hl = (hs, sos)" by (cases "sum_of_squares_o l hl")
  obtain hw w where w: "weights_reg_o (o_weight_regulariser self1) sos (o_p self1) hs = (hw, w)"
    by (cases "weights_reg_o (o_weight_regulariser self1) sos (o_p self1) hs")
  obtain he dd where e: "entropy_term_o (o_p self1) hw = (he, dd)"
    by (cases "entropy_term_o (o_p self1) hw")
  have 1: "extends hl hs" using sum_of_squares_o_frame[of hl l] s by simp
  have 2: "extends hs hw"
    using weights_reg_o_frame[of hs "o_weight_regulariser self1" sos "o_p self1"] w by simp
  have 3: "extends hw he" "length hw \<le> dd"
    using entropy_term_o_frame[of hw "o_p self1"] e by simp_all
  have he: "extends hl he" using 1 2 3(1) extends_trans by blast
  have dd: "length hl \<le> dd"
    using extends_length[OF 1] extends_length[OF 2] 3(2) by linarith
  have "extends hl h'"
    using assms he dd
    by (auto simp: forward_o_def d c s w e Let_def alloc_def extends_iff list_update_append
        split: sum.splits)
  then show ?thesis using hd c by (metis fst_conv)
qed


lemma forward_o_fields:
  "(fst (forward_o self x l g h0))\<lparr>o_p := o_p self, o_regularisation := o_regularisation self\<rparr>
     = self"
proof -
  have d: "fst (concrete_dropout_o self x g h0) = self\<lparr>o_p := length h0\<rparr>"
    by (simp add: concrete_dropout_o_def alloc_def Let_def split: prod.splits)
  show ?thesis
  proof (cases "o_training self \<or> o_mc_dropout self")
    case True
    obtain s1 g1 inp hd where c: "concrete_dropout_o self x g h0 = (s1, g1, inp, hd)"
      by (metis prod_cases4)
    then have s1: "s1 = self\<lparr>o_p := length h0\<rparr>" using d by simp
    show ?thesis
      using True
      by (auto simp: forward_o_def c s1 Let_def split: sum.splits prod.splits)
  next
    case False
    then show ?thesis
      by (auto simp: forward_o_def Let_def split: sum.splits prod.splits)
  qed
qed

section \<open>The store-level methods compute the values of the value-level ones\<close>

lemma entropy_term_o_value:
  assumes "pa < length h"
  shows "(case entropy_term_o pa h of (h', d) \<Rightarrow>
            extends h h' \<and> length h \<le> d \<and> d < length h' \<and> h' ! d = entropy_term (h ! pa))"
  using assms
  by (simp add: entropy_term_o_def entropy_term_def alloc_def Let_def nth_append extends_iff
      list_update_append)

lemma weights_reg_o_value:
  assumes "pa < length h" "\<forall>s. sos = Inr s \<longrightarrow> s < length h"
  shows "(case weights_reg_o wr sos pa h of (h', w) \<Rightarrow>
            extends h h' \<and> length h \<le> w \<and> w < length h'
          \<and> h' ! w = weights_reg wr (val_of sos h) (h ! pa))"
  using assms
  by (cases sos) (simp_all add: weights_reg_o_def alloc_def Let_def nth_append extends_iff)


lemma drop_score_o_value:
  assumes "pa < length h" "u < length h"
  shows "(case drop_score_o pa u eps h of (h', a) \<Rightarrow>
            extends h h' \<and> a < length h'
          \<and> h' ! a =
              t_sub
                (t_add
                  (t_sub (torch_log (t_add_s (h ! pa) eps))
                         (torch_log (t_add_s (s_sub_t 1 (h ! pa)) eps)))
                  (torch_log (t_add_s (h ! u) eps)))
                (torch_log (t_add_s (s_sub_t 1 (h ! u)) eps)))"
  using assms
  by (simp add: drop_score_o_def alloc_def Let_def nth_append extends_iff)


lemma concrete_dropout_o_value:
  assumes x: "x < length h0" and pl: "o_p_logit self < length h0"
    and V: "p_logit V = h0 ! o_p_logit self"
  shows "\<exists>h1 x1. concrete_dropout_o self x g h0 =
            (self\<lparr>o_p := length h0\<rparr>, fst (snd (concrete_dropout V (h0 ! x) g)), x1, h1)
         \<and> extends h0 h1 \<and> x1 < length h1 \<and> length h0 < length h1
         \<and> h1 ! length h0 = torch_sigmoid (p_logit V)
         \<and> h1 ! x1 = snd (snd (concrete_dropout V (h0 ! x) g))"
proof -
  let ?eps = "finfo_eps (dtype (h0 ! x))"
  let ?t1 = "torch_sigmoid (h0 ! o_p_logit self)"
  let ?noise = "fst (rand_like g (h0 ! x))"
  let ?h2 = "h0 @ [?t1, ?noise]"
  let ?score = "t_sub
                (t_add
                  (t_sub (torch_log (t_add_s ?t1 ?eps))
                         (torch_log (t_add_s (s_sub_t 1 ?t1) ?eps)))
                  (torch_log (t_add_s ?noise ?eps)))
                (torch_log (t_add_s (s_sub_t 1 ?noise) ?eps))"
  obtain h3 dp where d: "drop_score_o (length h0) (Suc (length h0)) ?eps ?h2 = (h3, dp)"
    by (cases "drop_score_o (length h0) (Suc (length h0)) ?eps ?h2")
  have v: "extends ?h2 h3" "dp < length h3" "h3 ! dp = ?score"
    using drop_score_o_value[of "length h0" ?h2 "Suc (length h0)" ?eps] d
    by (simp_all add: nth_append)
  obtain t where t: "h3 = ?h2 @ t" using v(1) by (auto simp: extends_iff)
  have reads: "h3 ! x = h0 ! x" "h3 ! length h0 = ?t1"
    using x t by (simp_all add: nth_append)
  have lens: "length h0 < length h3" "x < length h3"
    using x t by simp_all
  let ?mask = "s_sub_t 1 (torch_sigmoid (t_div_s ?score (1 / 10)))"
  let ?out = "t_div (torch_mul (h0 ! x) ?mask) (s_sub_t 1 ?t1)"
  have c: "concrete_dropout_o self x g h0 =
      (self\<lparr>o_p := length h0\<rparr>, snd (rand_like g (h0 ! x)), length h3 + 5,
       h3 @ [t_div_s ?score (1 / 10), torch_sigmoid (t_div_s ?score (1 / 10)), ?mask,
             s_sub_t 1 ?t1, torch_mul (h0 ! x) ?mask, ?out])"
    using x v(2,3) reads lens
    by (simp add: concrete_dropout_o_def alloc_def Let_def nth_append case_prod_beta d)
  have val: "concrete_dropout V (h0 ! x) g =
      (V\<lparr>p := ?t1\<rparr>, snd (rand_like g (h0 ! x)), ?out)"
    by (simp add: concrete_dropout_def Let_def case_prod_beta V)
  show ?thesis
    unfolding c val using t by (simp add: extends_iff nth_append V)
qed


lemma sos_step_value:
  assumes "q < length h0" "extends h0 h"
    and "\<forall>a. acc = Inr a \<longrightarrow> length h0 \<le> a \<and> a < length h"
  shows "(case sos_step (h, acc) q of (h', acc') \<Rightarrow>
            extends h0 h' \<and> (\<forall>a. acc' = Inr a \<longrightarrow> length h0 \<le> a \<and> a < length h')
          \<and> val_of acc' h' = py_iadd (val_of acc h) (torch_sum (torch_pow (h0 ! q) 2)))"
proof -
  obtain t where t: "h = h0 @ t" using assms(2) by (auto simp: extends_iff)
  show ?thesis
  proof (cases acc)
    case (Inl n)
    then show ?thesis
      using assms(1) t
      by (simp add: sos_step_def alloc_def Let_def nth_append extends_iff)
  next
    case (Inr a)
    then have a: "length h0 \<le> a" "a < length h" using assms(3) by simp_all
    then show ?thesis
      using assms(1) t Inr
      by (simp add: sos_step_def alloc_def Let_def nth_append extends_iff list_update_append)
  qed
qed

lemma sos_fold_value:
  assumes "\<forall>a\<in>set ps. a < length h0" "extends h0 h"
    and "\<forall>a. acc = Inr a \<longrightarrow> length h0 \<le> a \<and> a < length h"
  shows "(case foldl sos_step (h, acc) ps of (h', acc') \<Rightarrow>
            extends h0 h' \<and> (\<forall>a. acc' = Inr a \<longrightarrow> length h0 \<le> a \<and> a < length h')
          \<and> val_of acc' h' =
              foldl (\<lambda>s param. py_iadd s (torch_sum (torch_pow param 2))) (val_of acc h)
                (map ((!) h0) ps))"
  using assms
proof (induction ps arbitrary: h acc)
  case Nil
  then show ?case by simp
next
  case (Cons q qs)
  obtain h1 acc1 where s: "sos_step (h, acc) q = (h1, acc1)"
    by (cases "sos_step (h, acc) q")
  have q: "q < length h0" using Cons.prems(1) by simp
  from sos_step_value[OF q Cons.prems(2,3)] s
  have 1: "extends h0 h1" "\<forall>a. acc1 = Inr a \<longrightarrow> length h0 \<le> a \<and> a < length h1"
    "val_of acc1 h1 = py_iadd (val_of acc h) (torch_sum (torch_pow (h0 ! q) 2))"
    by simp_all
  have qs: "\<forall>a\<in>set qs. a < length h0" using Cons.prems(1) by simp
  from Cons.IH[OF qs 1(1,2)] show ?case
    by (simp add: s 1(3))
qed

lemma sum_of_squares_o_value:
  assumes "\<forall>a\<in>set (parameters_o l). a < length h0" "extends h0 h"
    and "parameters lv = map ((!) h0) (parameters_o l)"
  shows "(case sum_of_squares_o l h of (h', sos) \<Rightarrow>
            extends h h' \<and> (\<forall>a. sos = Inr a \<longrightarrow> a < length h')
          \<and> val_of sos h' = sum_of_squares lv)"
proof -
  have e: "extends h (fst (sum_of_squares_o l h))" by (rule sum_of_squares_o_frame)
  from sos_fold_value[OF assms(1,2), of "Inl 0"] e show ?thesis
    by (auto simp: sum_of_squares_o_def sum_of_squares_def assms(3) split: prod.splits)
qed


lemma layer_refinesD:
  assumes "layer_refines l lv" "inp < length h" "call_o l h inp = (h', r)"
  shows "extends h h' \<and>
         (case r of
            Inl e \<Rightarrow> call lv (h ! inp) = Inl e
          | Inr out \<Rightarrow> out < length h' \<and> call lv (h ! inp) = Inr (h' ! out))"
proof -
  from assms(1) have "\<forall>inp. inp < length h \<longrightarrow>
        (case call_o l h inp of (h', r) \<Rightarrow>
           extends h h' \<and>
           (case r of
              Inl e \<Rightarrow> call lv (h ! inp) = Inl e
            | Inr out \<Rightarrow> out < length h' \<and> call lv (h ! inp) = Inr (h' ! out)))"
    unfolding layer_refines_def by (rule spec)
  then have "inp < length h \<longrightarrow>
        (case call_o l h inp of (h', r) \<Rightarrow>
           extends h h' \<and>
           (case r of
              Inl e \<Rightarrow> call lv (h ! inp) = Inl e
            | Inr out \<Rightarrow> out < length h' \<and> call lv (h ! inp) = Inr (h' ! out)))"
    by (rule spec)
  then show ?thesis using assms(2,3) by simp
qed

lemma module_of_extends:
  assumes "extends h h'" "o_p_logit s < length h" "o_p s < length h"
    and "\<forall>a. o_regularisation s = Inr a \<longrightarrow> a < length h"
  shows "module_of s h' = module_of s h"
proof -
  obtain t where "h' = h @ t" using assms(1) by (auto simp: extends_iff)
  then show ?thesis
    using assms(2-4) by (cases "o_regularisation s") (simp_all add: module_of_def nth_append)
qed

lemma module_of_p [simp]: "module_of (s\<lparr>o_p := a\<rparr>) h = (module_of s h)\<lparr>p := h ! a\<rparr>"
  by (simp add: module_of_def)

lemma module_of_regularisation [simp]:
  "module_of (s\<lparr>o_regularisation := Inr a\<rparr>) h = (module_of s h)\<lparr>regularisation := PyTensor (h ! a)\<rparr>"
  by (simp add: module_of_def)

lemma forward_o_first_phase:
  assumes x: "x < length h0" and pl: "o_p_logit self < length h0" and pp: "o_p self < length h0"
    and rg: "\<forall>a. o_regularisation self = Inr a \<longrightarrow> a < length h0"
  shows "\<exists>self1 g1 inp h1.
           (if o_training self \<or> o_mc_dropout self then concrete_dropout_o self x g h0
            else (self, g, x, h0)) = (self1, g1, inp, h1)
         \<and> (if training (module_of self h0) \<or> mc_dropout (module_of self h0)
             then concrete_dropout (module_of self h0) (h0 ! x) g
             else (module_of self h0, g, h0 ! x)) = (module_of self1 h1, g1, h1 ! inp)
         \<and> extends h0 h1 \<and> inp < length h1 \<and> o_p self1 < length h1
         \<and> o_p_logit self1 < length h1
         \<and> (\<forall>a. o_regularisation self1 = Inr a \<longrightarrow> a < length h1)"
proof (cases "o_training self \<or> o_mc_dropout self")
  case True
  let ?V = "module_of self h0"
  have V: "p_logit ?V = h0 ! o_p_logit self" by (simp add: module_of_def)
  from concrete_dropout_o_value[OF x pl V, of g] obtain h1 x1 where
    c: "concrete_dropout_o self x g h0 =
          (self\<lparr>o_p := length h0\<rparr>, fst (snd (concrete_dropout ?V (h0 ! x) g)), x1, h1)"
    and e: "extends h0 h1" and l: "x1 < length h1" "length h0 < length h1"
    and v: "h1 ! length h0 = torch_sigmoid (p_logit ?V)"
       "h1 ! x1 = snd (snd (concrete_dropout ?V (h0 ! x) g))"
    by blast
  have m: "module_of self h1 = ?V"
    by (rule module_of_extends[OF e pl pp rg])
  have cv: "concrete_dropout ?V (h0 ! x) g =
      (?V\<lparr>p := torch_sigmoid (p_logit ?V)\<rparr>, fst (snd (concrete_dropout ?V (h0 ! x) g)),
       snd (snd (concrete_dropout ?V (h0 ! x) g)))"
    using concrete_dropout_self[of ?V "h0 ! x" g]
    by (metis prod.collapse)
  have tm: "training ?V \<or> mc_dropout ?V" using True by (simp add: module_of_def)
  have lens: "o_p_logit self < length h1" "\<forall>a. o_regularisation self = Inr a \<longrightarrow> a < length h1"
    using pl rg l(2) by auto
  show ?thesis
    apply (rule exI[of _ "self\<lparr>o_p := length h0\<rparr>"])
    apply (rule exI[of _ "fst (snd (concrete_dropout ?V (h0 ! x) g))"])
    apply (rule exI[of _ x1])
    apply (rule exI[of _ h1])
    using True tm c e l v lens apply (simp add: m)
    using cv apply simp
    done
next
  case False
  then have "\<not> (training (module_of self h0) \<or> mc_dropout (module_of self h0))"
    by (simp add: module_of_def)
  then show ?thesis
    using False x pl pp rg by simp
qed


lemma forward_o_value:
  assumes R: "layer_refines l lv"
    and P: "parameters lv = map ((!) h0) (parameters_o l)"
    and Pa: "\<forall>a\<in>set (parameters_o l). a < length h0"
    and x: "x < length h0" and pl: "o_p_logit self < length h0" and pp: "o_p self < length h0"
    and rg: "\<forall>a. o_regularisation self = Inr a \<longrightarrow> a < length h0"
  shows "(case forward_o self x l g h0 of (self', g', r, h') \<Rightarrow>
            forward (module_of self h0) (h0 ! x) lv g =
              (module_of self' h', g', map_sum id ((!) h') r))"
proof -
  from forward_o_first_phase[OF x pl pp rg, of g] obtain self1 g1 inp h1 where
    o1: "(if o_training self \<or> o_mc_dropout self then concrete_dropout_o self x g h0
          else (self, g, x, h0)) = (self1, g1, inp, h1)"
    and v1: "(if training (module_of self h0) \<or> mc_dropout (module_of self h0)
             then concrete_dropout (module_of self h0) (h0 ! x) g
             else (module_of self h0, g, h0 ! x)) = (module_of self1 h1, g1, h1 ! inp)"
    and e1: "extends h0 h1" and l1: "inp < length h1" "o_p self1 < length h1"
      "o_p_logit self1 < length h1" "\<forall>a. o_regularisation self1 = Inr a \<longrightarrow> a < length h1"
    by blast
  obtain h2 r where c: "call_o l h1 inp = (h2, r)" by (cases "call_o l h1 inp")
  from layer_refinesD[OF R l1(1) c] have e2: "extends h1 h2"
    and rv: "case r of Inl e \<Rightarrow> call lv (h1 ! inp) = Inl e
             | Inr out \<Rightarrow> out < length h2 \<and> call lv (h1 ! inp) = Inr (h2 ! out)"
    by (rule conjunct1, rule conjunct2)
  have m2: "module_of self1 h2 = module_of self1 h1"
    by (rule module_of_extends[OF e2 l1(3) l1(2) l1(4)])
  show ?thesis
  proof (cases r)
    case (Inl e)
    then show ?thesis
      using rv by (simp add: forward_o_def forward_def o1 v1 c m2 Let_def)
  next
    case (Inr out)
    then have out: "out < length h2" "call lv (h1 ! inp) = Inr (h2 ! out)" using rv by simp_all
    have e02: "extends h0 h2" using e1 e2 by (rule extends_trans)
    obtain h3 sos where s: "sum_of_squares_o l h2 = (h3, sos)" by (cases "sum_of_squares_o l h2")
    from sum_of_squares_o_value[OF Pa e02 P] s
    have e3: "extends h2 h3" and sv: "\<forall>a. sos = Inr a \<longrightarrow> a < length h3"
      "val_of sos h3 = sum_of_squares lv"
      by simp_all
    have e13: "extends h1 h3" using e2 e3 by (rule extends_trans)
    have pa3: "o_p self1 < length h3" "h3 ! o_p self1 = h1 ! o_p self1"
      using extends_nth[OF e13 l1(2)] by simp_all
    obtain h4 w where w: "weights_reg_o (o_weight_regulariser self1) sos (o_p self1) h3 = (h4, w)"
      by (cases "weights_reg_o (o_weight_regulariser self1) sos (o_p self1) h3")
    from weights_reg_o_value[OF pa3(1) sv(1), of "o_weight_regulariser self1"] w
    have e4: "extends h3 h4" and lw: "w < length h4"
      and wv: "h4 ! w = weights_reg (o_weight_regulariser self1) (sum_of_squares lv)
                          (h1 ! o_p self1)"
      by (simp_all add: sv(2) pa3(2))
    have e14: "extends h1 h4" using e13 e4 by (rule extends_trans)
    have pa4: "o_p self1 < length h4" "h4 ! o_p self1 = h1 ! o_p self1"
      using extends_nth[OF e14 l1(2)] by simp_all
    obtain h5 d where d: "entropy_term_o (o_p self1) h4 = (h5, d)"
      by (cases "entropy_term_o (o_p self1) h4")
    from entropy_term_o_value[OF pa4(1)] d
    have e5: "extends h4 h5" and ld: "length h4 \<le> d" "d < length h5"
      and dv: "h5 ! d = entropy_term (h1 ! o_p self1)"
      by (simp_all add: pa4(2))
    have e15: "extends h1 h5" using e14 e5 by (rule extends_trans)
    have e05: "extends h0 h5" using e1 e15 by (rule extends_trans)
    have x5: "h5 ! x = h0 ! x" using extends_nth[OF e05 x] by simp
    have w5: "h5 ! w = h4 ! w" "w < d" using extends_nth[OF e5 lw] lw ld(1) by simp_all
    have m5: "module_of self1 h5 = module_of self1 h1"
      by (rule module_of_extends[OF e15 l1(3) l1(2) l1(4)])
    have o5: "h5 ! out = h2 ! out"
      using extends_nth[OF extends_trans[OF e3 extends_trans[OF e4 e5]] out(1)] by simp
    show ?thesis
    proof (cases "index0 (h0 ! x)")
      case (Inl e)
      then show ?thesis
        using Inr out o5
        by (simp add: forward_o_def forward_def o1 v1 c s w d x5 m5 Let_def)
    next
      case x0: (Inr x0)
      let ?c = "o_dropout_regulariser self1 * real (numel x0)"
      let ?h6 = "h5[d := t_imul_s (h5 ! d) ?c]"
      have len1: "length h1 \<le> d"
        using extends_length[OF e14] ld(1) by linarith
      have e16: "extends h1 ?h6" using e15 len1 by (rule extends_update)
      have m6: "module_of self1 (?h6 @ ts) = module_of self1 h1" for ts
      proof -
        have "extends h1 (?h6 @ ts)" using e16 by (auto simp: extends_iff)
        then show ?thesis by (rule module_of_extends[OF _ l1(3) l1(2) l1(4)])
      qed
      have out6: "(?h6 @ ts) ! out = h2 ! out" for ts
      proof -
        have "out < length h4" using extends_length[OF e3] extends_length[OF e4] out(1) by linarith
        then have "out < d" "out < length h5" using ld by simp_all
        then show ?thesis using o5 by (simp add: nth_append)
      qed
      have r6: "?h6 ! w = h4 ! w" "?h6 ! d = dropout_reg (o_dropout_regulariser self1) x0 (h1 ! o_p self1)"
        using w5 ld(2) dv by (simp_all add: dropout_reg_def)
      have fields: "weight_regulariser (module_of self1 h1) = o_weight_regulariser self1"
        "dropout_regulariser (module_of self1 h1) = o_dropout_regulariser self1"
        "p (module_of self1 h1) = h1 ! o_p self1"
        by (simp_all add: module_of_def)
      have reg6: "(?h6 @ [t]) ! length h5 = t" for t
        by (simp add: nth_append)
      show ?thesis
        using Inr out x0 r6
        by (simp add: forward_o_def forward_def o1 v1 c s w d x5 Let_def alloc_def m6 out6
            fields wv reg6)
    qed
  qed
qed

text \<open>
  In exact arithmetic the sigmoid of every real number lies strictly between 0 and 1.
  (In floating point the result is rounded, and for a logit of large magnitude it is
  exactly 0 or 1; rounding is outside this model.)
\<close>

lemma sigmoid_open_interval: "0 < sigmoid v \<and> sigmoid v < 1"
proof -
  have "0 < exp (- v)" by simp
  then show ?thesis by (simp add: sigmoid_def add_pos_pos)
qed

section \<open>Claims about \<open>forward\<close>\<close>

text \<open>
  The concrete module used in the examples below is built by \<open>init\<close> with
  \<open>init_min = init_max = 1/2\<close>, so that its logit is 0 and its cached \<open>p\<close> is 1/2. Where
  the logit is then set to \<open>ln 3\<close>, this stands for an optimiser step on the parameter
  (the sigmoid of \<open>ln 3\<close> is 3/4); \<open>training := False\<close> stands for \<open>eval()\<close>.
\<close>

lemma sigmoid_zero [simp]: "sigmoid 0 = 1 / 2"
  by (simp add: sigmoid_def)


lemma fresh_unit:
  "fst (projr (init 1 0 (1/2) (1/2) (1/10) False (\<lambda>i. 1 / 2)))
   = \<lparr>weight_regulariser = 1, dropout_regulariser = 0,
       p_logit = \<lparr>dtype = Float32, shape = [1], elems = [0]\<rparr>,
       p = \<lparr>dtype = Float32, shape = [1], elems = [1 / 2]\<rparr>,
       temperature = 1 / 10, mc_dropout = False, regularisation = PyNum 0, training = True\<rparr>"
  by (simp add: init_def Let_def torch_sigmoid_def unary_def)











text \<open>
  C5. The configured temperature has no effect: changing the \<open>temperature\<close> field of a
  module changes nothing in what \<open>forward\<close> returns, in the draws it takes or in the module
  it leaves, apart from that field itself; and two modules constructed with different
  temperature arguments differ in that field only.
\<close>

theorem temperature_unused:
  "forward (self\<lparr>temperature := t\<rparr>) x l g =
     (case forward self x l g of (self', g', r) \<Rightarrow> (self'\<lparr>temperature := t\<rparr>, g', r))
   \<and> init wr dr a b t mc g0 =
       (case init wr dr a b t' mc g0 of
          Inl e \<Rightarrow> Inl e
        | Inr (self', g') \<Rightarrow> Inr (self'\<lparr>temperature := t\<rparr>, g'))"
  by (simp add: forward_def concrete_dropout_def rand_like_def init_def Let_def split: sum.splits)

text \<open>
  C8. On an input whose leading dimension is zero \<open>forward\<close> raises, in every mode, and
  the stored regularisation is not overwritten; when the layer itself never raises, the
  exception is the IndexError of \<open>x[0]\<close>.
\<close>

theorem forward_empty_batch_fails:
  assumes "shape x = 0 # rest"
  shows "(\<exists>e. snd (snd (forward self x l g)) = Inl e)
       \<and> regularisation (fst (forward self x l g)) = regularisation self
       \<and> ((\<forall>t. \<exists>y. call l t = Inr y) \<longrightarrow> snd (snd (forward self x l g)) = Inl IndexError)"
proof (cases "training self \<or> mc_dropout self")
  case True
  show ?thesis
    using index0_empty_batch[OF assms]
    by (auto simp add: forward_dropout[OF True] Let_def split: sum.splits)
      (metis Inl_Inr_False)+
next
  case False
  then have f: "\<not> training self" "\<not> mc_dropout self" by simp_all
  show ?thesis
    using index0_empty_batch[OF assms]
    by (auto simp add: forward_inference[OF f] split: sum.splits)
      (metis Inl_Inr_False)+
qed

theorem forward_empty_batch_fails_witness:
  "snd (snd (forward
      (fst (projr (init 1 0 (1/2) (1/2) (1/10) False (\<lambda>i. 1 / 2))))
      \<lparr>dtype = Float32, shape = [0, 3], elems = []\<rparr>
      \<lparr>call = Inr, parameters = []\<rparr>
      (\<lambda>i. 1 / 2)))
   = Inl IndexError"
proof -
  have h: "shape \<lparr>dtype = Float32, shape = [0, 3], elems = []\<rparr> = 0 # [3]"
    by simp
  show ?thesis
    using forward_empty_batch_fails[OF h,
        of "fst (projr (init 1 0 (1/2) (1/2) (1/10) False (\<lambda>i. 1 / 2)))"
           "\<lparr>call = Inr, parameters = []\<rparr>" "\<lambda>i. 1 / 2"]
    by simp
qed

text \<open>
  C10. With training mode off and \<open>mc_dropout\<close> false, \<open>forward\<close> takes no draw from the
  random generator and does not depend on it: the generator comes back as it went in,
  the module left behind and the result are the same for any two generators, and a
  second call on the module left by the first returns the same result and stores the
  same regularisation.
\<close>

theorem forward_inference_deterministic:
  assumes "\<not> training self" "\<not> mc_dropout self"
  shows "fst (snd (forward self x l g)) = g
       \<and> fst (forward self x l g') = fst (forward self x l g)
       \<and> snd (snd (forward self x l g')) = snd (snd (forward self x l g))
       \<and> fst (forward (fst (forward self x l g)) x l g') = fst (forward self x l g)
       \<and> snd (snd (forward (fst (forward self x l g)) x l g')) = snd (snd (forward self x l g))"
proof (intro conjI)
  show "fst (snd (forward self x l g)) = g"
    by (simp add: forward_inference[OF assms] split: sum.splits)
  show "fst (forward self x l g') = fst (forward self x l g)"
    by (simp add: forward_inference[OF assms] split: sum.splits)
  show "snd (snd (forward self x l g')) = snd (snd (forward self x l g))"
    by (simp add: forward_inference[OF assms] split: sum.splits)
  have again: "forward (fst (forward self x l g)) x l g' =
      (fst (forward self x l g), g', snd (snd (forward self x l g)))"
  proof (cases "snd (snd (forward self x l g))")
    case (Inl e)
    then have "fst (forward self x l g) = self"
      by (simp add: forward_inference[OF assms] split: sum.splits)
    moreover have "forward self x l g' = (self, g', snd (snd (forward self x l g)))"
      using Inl by (simp add: forward_inference[OF assms] split: sum.splits)
    ultimately show ?thesis by simp
  next
    case (Inr y)
    then obtain r where r: "forward self x l g = (self\<lparr>regularisation := r\<rparr>, g, Inr y)"
      by (auto simp add: forward_inference[OF assms] split: sum.splits)
    show ?thesis
      using r by (simp add: forward_inference_regularisation_irrelevant[OF assms, of r x l g' g])
  qed
  show "fst (forward (fst (forward self x l g)) x l g') = fst (forward self x l g)"
    by (simp add: again)
  show "snd (snd (forward (fst (forward self x l g)) x l g')) = snd (snd (forward self x l g))"
    by (simp add: again)
qed

theorem forward_inference_deterministic_witness:
  "fst (snd (forward
      ((fst (projr (init 1 0 (1/2) (1/2) (1/10) False (\<lambda>i. 1 / 2))))\<lparr>training := False\<rparr>)
      \<lparr>dtype = Float32, shape = [1, 1], elems = [1]\<rparr>
      \<lparr>call = Inr, parameters = []\<rparr>
      (\<lambda>i. 1 / 2)))
   = (\<lambda>i. 1 / 2)"
proof -
  let ?u = "(fst (projr (init 1 0 (1/2) (1/2) (1/10) False (\<lambda>i. 1 / 2))))\<lparr>training := False\<rparr>"
  have h1: "\<not> training ?u" and h2: "\<not> mc_dropout ?u"
    by (simp_all add: fresh_unit)
  show ?thesis
    using forward_inference_deterministic[OF h1 h2] by blast
qed

section \<open>Claims about the dropout transform and the regularisation terms\<close>




text \<open>
  C7, as amended. As functions of the keep probability on the open interval from 0 to 1,
  with the layer and \<open>x\<close> fixed: the weight term strictly increases when
  \<open>weight_regulariser * sum_of_squares\<close> is positive; the dropout term is least at
  \<open>p = 1/2\<close> when \<open>dropout_regulariser\<close> is not negative; and the dropout term tends to
  0 as \<open>p\<close> tends to 0 from above and as \<open>p\<close> tends to 1 from below.
\<close>

theorem regularisation_terms_shape:
  "(0 < wr * sos_value l \<longrightarrow> 0 < p1 \<longrightarrow> p1 < p2 \<longrightarrow> p2 < 1 \<longrightarrow>
      hd (elems (weights_reg wr (sum_of_squares l) \<lparr>dtype = d, shape = [1], elems = [p1]\<rparr>))
    < hd (elems (weights_reg wr (sum_of_squares l) \<lparr>dtype = d, shape = [1], elems = [p2]\<rparr>)))
 \<and> (0 \<le> dr \<longrightarrow> 0 < q \<longrightarrow> q < 1 \<longrightarrow>
      hd (elems (dropout_reg dr x0 \<lparr>dtype = d, shape = [1], elems = [1 / 2]\<rparr>))
    \<le> hd (elems (dropout_reg dr x0 \<lparr>dtype = d, shape = [1], elems = [q]\<rparr>)))
 \<and> ((\<lambda>q. hd (elems (dropout_reg dr x0 \<lparr>dtype = d, shape = [1], elems = [q]\<rparr>)))
        \<longlongrightarrow> 0) (at_right 0)
 \<and> ((\<lambda>q. hd (elems (dropout_reg dr x0 \<lparr>dtype = d, shape = [1], elems = [q]\<rparr>)))
        \<longlongrightarrow> 0) (at_left 1)"
proof (intro conjI impI)
  assume "0 < wr * sos_value l" "0 < p1" "p1 < p2" "p2 < 1"
  then have "wr * sos_value l / (1 - p1) < wr * sos_value l / (1 - p2)"
    by (intro divide_strict_left_mono) (simp_all add: mult_pos_pos)
  then show "hd (elems (weights_reg wr (sum_of_squares l) \<lparr>dtype = d, shape = [1], elems = [p1]\<rparr>))
    < hd (elems (weights_reg wr (sum_of_squares l) \<lparr>dtype = d, shape = [1], elems = [p2]\<rparr>))"
    by (simp only: weights_reg_item)
next
  assume a: "0 \<le> dr" "0 < q" "q < 1"
  have "(1 / 2 * ln (1 / 2) + (1 - 1 / 2) * ln (1 - 1 / 2)) * (dr * real (numel x0))
      \<le> (q * ln q + (1 - q) * ln (1 - q)) * (dr * real (numel x0))"
    unfolding entropy_half
    using entropy_min[OF a(2,3)] a(1) by (intro mult_right_mono) simp_all
  then show "hd (elems (dropout_reg dr x0 \<lparr>dtype = d, shape = [1], elems = [1 / 2]\<rparr>))
    \<le> hd (elems (dropout_reg dr x0 \<lparr>dtype = d, shape = [1], elems = [q]\<rparr>))"
    by (simp only: dropout_reg_item)
next
  have "((\<lambda>q. (q * ln q + (1 - q) * ln (1 - q)) * (dr * real (numel x0)))
          \<longlongrightarrow> 0 * (dr * real (numel x0))) (at_right 0)"
    by (intro tendsto_mult_right entropy_at_right_0)
  then show "((\<lambda>q. hd (elems (dropout_reg dr x0 \<lparr>dtype = d, shape = [1], elems = [q]\<rparr>)))
        \<longlongrightarrow> 0) (at_right 0)"
    by (simp only: dropout_reg_item mult_zero_left)
next
  have "((\<lambda>q. (q * ln q + (1 - q) * ln (1 - q)) * (dr * real (numel x0)))
          \<longlongrightarrow> 0 * (dr * real (numel x0))) (at_left 1)"
    by (intro tendsto_mult_right entropy_at_left_1)
  then show "((\<lambda>q. hd (elems (dropout_reg dr x0 \<lparr>dtype = d, shape = [1], elems = [q]\<rparr>)))
        \<longlongrightarrow> 0) (at_left 1)"
    by (simp only: dropout_reg_item mult_zero_left)
qed

theorem regularisation_terms_shape_witness:
  "hd (elems (weights_reg 1
        (sum_of_squares \<lparr>call = Inr, parameters = [\<lparr>dtype = Float32, shape = [1], elems = [1]\<rparr>]\<rparr>)
        \<lparr>dtype = Float32, shape = [1], elems = [1 / 4]\<rparr>))
   < hd (elems (weights_reg 1
        (sum_of_squares \<lparr>call = Inr, parameters = [\<lparr>dtype = Float32, shape = [1], elems = [1]\<rparr>]\<rparr>)
        \<lparr>dtype = Float32, shape = [1], elems = [1 / 2]\<rparr>))
 \<and> hd (elems (dropout_reg 1 \<lparr>dtype = Float32, shape = [3], elems = [1, 2, 3]\<rparr>
        \<lparr>dtype = Float32, shape = [1], elems = [1 / 2]\<rparr>))
   \<le> hd (elems (dropout_reg 1 \<lparr>dtype = Float32, shape = [3], elems = [1, 2, 3]\<rparr>
        \<lparr>dtype = Float32, shape = [1], elems = [1 / 4]\<rparr>))"
proof -
  have h: "(0::real) < 1 * sos_value
      \<lparr>call = Inr, parameters = [\<lparr>dtype = Float32, shape = [1], elems = [1]\<rparr>]\<rparr>"
    by (simp add: sos_value_def)
  have k: "(0::real) < 1 / 4" "(1::real) / 4 < 1 / 2" "(1::real) / 2 < 1" "(0::real) \<le> 1"
    "(1::real) / 4 < 1"
    by simp_all
  from regularisation_terms_shape[of 1
      "\<lparr>call = Inr, parameters = [\<lparr>dtype = Float32, shape = [1], elems = [1]\<rparr>]\<rparr>"
      "1 / 4" "1 / 2" Float32 1 "1 / 4" "\<lparr>dtype = Float32, shape = [3], elems = [1, 2, 3]\<rparr>"]
  show ?thesis
    using h k by blast
qed

theorem weights_reg_constant_counterexample:
  "\<not> hd (elems (weights_reg 1 (sum_of_squares \<lparr>call = Inr, parameters = []\<rparr>)
        \<lparr>dtype = Float32, shape = [1], elems = [1 / 4]\<rparr>))
   < hd (elems (weights_reg 1 (sum_of_squares \<lparr>call = Inr, parameters = []\<rparr>)
        \<lparr>dtype = Float32, shape = [1], elems = [1 / 2]\<rparr>))"
  by (simp only: weights_reg_item) (simp add: sos_value_def)

section \<open>Claims about mutation\<close>

text \<open>
  C9. \<open>forward\<close> does not mutate the layer's parameters: if the layer's own call leaves
  its parameter tensors as they are, then every parameter tensor that existed before the
  call of \<open>forward\<close> holds the same value after it, in every mode and also when
  \<open>forward\<close> raises; and of the module's fields only \<open>p\<close> and \<open>regularisation\<close> are written.
\<close>

theorem forward_o_keeps_parameters:
  assumes "\<forall>hh inp a. a \<in> set (parameters_o l) \<longrightarrow> a < length hh \<longrightarrow>
             a < length (fst (call_o l hh inp)) \<and> fst (call_o l hh inp) ! a = hh ! a"
  shows "(\<forall>a\<in>set (parameters_o l). a < length h0 \<longrightarrow>
            a < length (snd (snd (snd (forward_o self x l g h0))))
          \<and> snd (snd (snd (forward_o self x l g h0))) ! a = h0 ! a)
       \<and> (fst (forward_o self x l g h0))
            \<lparr>o_p := o_p self, o_regularisation := o_regularisation self\<rparr> = self"
proof (intro conjI ballI impI)
  fix a assume a: "a \<in> set (parameters_o l)" "a < length h0"
  obtain self' g' res h' where f: "forward_o self x l g h0 = (self', g', res, h')"
    by (metis prod_cases4)
  from forward_o_post_frame[OF f] obtain hd inp where
    e: "extends h0 hd" "extends (fst (call_o l hd inp)) h'"
    by blast
  have 1: "a < length hd" "hd ! a = h0 ! a"
    using extends_nth[OF e(1) a(2)] by simp_all
  have 2: "a < length (fst (call_o l hd inp))" "fst (call_o l hd inp) ! a = hd ! a"
    using assms a(1) 1(1) by blast+
  have 3: "a < length h'" "h' ! a = fst (call_o l hd inp) ! a"
    using extends_nth[OF e(2) 2(1)] by simp_all
  show "a < length (snd (snd (snd (forward_o self x l g h0))))"
    using 3 by (simp add: f)
  show "snd (snd (snd (forward_o self x l g h0))) ! a = h0 ! a"
    using 1 2 3 by (simp add: f)
next
  show "(fst (forward_o self x l g h0))
            \<lparr>o_p := o_p self, o_regularisation := o_regularisation self\<rparr> = self"
    by (rule forward_o_fields)
qed

theorem forward_o_keeps_parameters_witness:
  "snd (snd (snd (forward_o
      \<lparr>o_weight_regulariser = 1, o_dropout_regulariser = 1, o_p_logit = 0, o_p = 1,
        o_temperature = 1 / 10, o_mc_dropout = False, o_regularisation = Inl 0,
        o_training = True\<rparr>
      2
      \<lparr>call_o = (\<lambda>h a. (h, Inr a)), parameters_o = [3]\<rparr>
      (\<lambda>i. 1 / 2)
      [\<lparr>dtype = Float32, shape = [1], elems = [0]\<rparr>,
       \<lparr>dtype = Float32, shape = [1], elems = [1 / 2]\<rparr>,
       \<lparr>dtype = Float32, shape = [1, 1], elems = [2]\<rparr>,
       \<lparr>dtype = Float32, shape = [1, 1], elems = [5]\<rparr>]))) ! 3
   = \<lparr>dtype = Float32, shape = [1, 1], elems = [5]\<rparr>"
proof -
  let ?l = "\<lparr>call_o = (\<lambda>h a. (h, Inr a)), parameters_o = [3]\<rparr>"
  have h: "\<forall>hh inp a. a \<in> set (parameters_o ?l) \<longrightarrow> a < length hh \<longrightarrow>
             a < length (fst (call_o ?l hh inp)) \<and> fst (call_o ?l hh inp) ! a = hh ! a"
    by simp
  from forward_o_keeps_parameters[OF h, THEN conjunct1, THEN bspec, of 3, THEN mp]
  show ?thesis by simp
qed

end
